theory Spec2Isabelle
  imports Complex_Main "HOL-Library.Log_Nat"
begin

section \<open>Errors\<close>

text \<open>
  The exceptions that the modelled Python code can raise. \<open>JitError\<close> stands for
  whatever the external just-in-time compiler raises when it cannot specialise a kernel.
\<close>

datatype error =
    ValueError string
  | ZeroDivisionError
  | OverflowError
  | IndexError
  | JitError string
  | RuntimeError string
  | CudaSupportError

section \<open>Device assignment (\<open>mpi_select_gpus\<close>)\<close>

text \<open>
  The function talks to two external collaborators: the accelerator runtime
  (\<open>cuda.gpus\<close>, \<open>cuda.select_device\<close>) and the communicator (\<open>barrier\<close>). The
  calls that bind a device or join a barrier are recorded, in order, as events. The
  number of devices visible to the process and its rank are inputs.
\<close>

datatype mpi_event = SelectDevice nat | Barrier

text \<open>Python's \<open>%\<close> on integers: it raises on a zero divisor, and the result has the
  sign of the divisor, as \<open>mod\<close> on \<open>int\<close> has.\<close>

definition py_mod :: "int \<Rightarrow> int \<Rightarrow> error + int" where
  "py_mod a b = (if b = 0 then Inl ZeroDivisionError else Inr (a mod b))"

text \<open>The body of \<open>for i_gpu in range(n_gpus)\<close>, run over the remaining indices.\<close>

fun select_loop :: "int \<Rightarrow> nat \<Rightarrow> nat list \<Rightarrow> mpi_event list \<Rightarrow> error + mpi_event list" where
  "select_loop rank n_gpus [] evs = Inr evs"
| "select_loop rank n_gpus (i_gpu # rest) evs =
     (case py_mod rank (int n_gpus) of
        Inl e \<Rightarrow> Inl e
      | Inr m \<Rightarrow>
          select_loop rank n_gpus rest
            ((if m = int i_gpu then evs @ [SelectDevice i_gpu] else evs) @ [Barrier]))"

text \<open>
  \<open>len(cuda.gpus)\<close>, the first statement of the function. The device list of the
  runtime is filled on first use by initialising the driver, and that raises
  \<open>CudaSupportError\<close> when no device is visible; otherwise the length is the number of
  visible devices.
\<close>

definition cuda_gpus_len :: "nat \<Rightarrow> error + nat" where
  "cuda_gpus_len visible = (if visible = 0 then Inl CudaSupportError else Inr visible)"

definition mpi_select_gpus :: "nat \<Rightarrow> int \<Rightarrow> error + mpi_event list" where
  "mpi_select_gpus visible rank =
     (case cuda_gpus_len visible of
        Inl e \<Rightarrow> Inl e
      | Inr n_gpus \<Rightarrow> select_loop rank n_gpus [0..<n_gpus] [])"

fun selected :: "mpi_event list \<Rightarrow> nat list" where
  "selected [] = []"
| "selected (SelectDevice d # evs) = d # selected evs"
| "selected (Barrier # evs) = selected evs"

text \<open>The devices bound by one process of rank \<open>r\<close>; an error binds nothing.\<close>

definition devices_of :: "nat \<Rightarrow> int \<Rightarrow> nat list" where
  "devices_of visible rank =
     (case mpi_select_gpus visible rank of Inl e \<Rightarrow> [] | Inr evs \<Rightarrow> selected evs)"

section \<open>Charge and current deposition (\<open>Simulation.deposit\<close>)\<close>

text \<open>
  The field structure, the particle species, the laser antennas and the boundary
  communicator are collaborators whose code is not part of the sources at hand. What
  \<open>deposit\<close> asks of them is recorded, in order, in the simulation's \<open>dispatched\<close> log;
  species and antennas are named by their position in their list.
\<close>

datatype work_item =
    Erase string
  | SpeciesDeposit nat string
  | AntennaDeposit nat string
  | DivideByVolume string
  | ExchangeFields string
  | Interp2Spect string
  | FilterSpect string

text \<open>A field structure and a particle species, as far as residency is concerned: the
  flag \<open>data_is_on_gpu\<close> and a counter of the bulk transfers performed so far.\<close>

record fields =
  fld_data_is_on_gpu :: bool
  fld_transfers :: nat

record particles =
  ptcl_use_cuda :: bool
  ptcl_data_is_on_gpu :: bool
  ptcl_transfers :: nat

record simulation =
  use_cuda :: bool
  fld :: fields
  ptcl :: "particles list"
  laser_antennas :: "nat list"
  filter_currents :: bool
  dispatched :: "work_item list"

definition dispatch :: "work_item \<Rightarrow> simulation \<Rightarrow> simulation" where
  "dispatch w self = self\<lparr>dispatched := dispatched self @ [w]\<rparr>"

text \<open>The common tail of \<open>deposit\<close>: \<open>interp2spect\<close>, then the optional filter.\<close>

definition to_spectral :: "string \<Rightarrow> simulation \<Rightarrow> simulation" where
  "to_spectral fieldtype self =
     (let s = dispatch (Interp2Spect fieldtype) self
      in if filter_currents s then dispatch (FilterSpect fieldtype) s else s)"

definition deposit :: "simulation \<Rightarrow> string \<Rightarrow> simulation \<times> error option" where
  "deposit self fieldtype =
     (if fieldtype \<in> set [''rho_prev'', ''rho_next''] then
        (let s1 = dispatch (Erase ''rho'') self;
             s2 = fold (\<lambda>i. dispatch (SpeciesDeposit i ''rho'')) [0..<length (ptcl s1)] s1;
             s3 = fold (\<lambda>i. dispatch (AntennaDeposit i ''rho''))
                    [0..<length (laser_antennas s2)] s2;
             s4 = dispatch (DivideByVolume ''rho'') s3;
             s5 = dispatch (ExchangeFields ''rho'') s4
         in (to_spectral fieldtype s5, None))
      else if fieldtype = ''J'' then
        (let s1 = dispatch (Erase ''J'') self;
             s2 = fold (\<lambda>i. dispatch (SpeciesDeposit i ''J'')) [0..<length (ptcl s1)] s1;
             s3 = fold (\<lambda>i. dispatch (AntennaDeposit i ''rho''))
                    [0..<length (laser_antennas s2)] s2;
             s4 = dispatch (DivideByVolume ''J'') s3;
             s5 = dispatch (ExchangeFields ''J'') s4
         in (to_spectral fieldtype s5, None))
      else (self, Some (ValueError (''Unknown fieldtype: '' @ fieldtype))))"

section \<open>Host/device residency\<close>

text \<open>
  Modelled from the spec: \<open>Fields.send_fields_to_gpu\<close> is not among the sources at
  hand. A device-send transfers the backing storage of an aggregate whose residency
  flag is false and sets the flag; an aggregate already resident is skipped.
\<close>

definition send_fields_to_gpu :: "fields \<Rightarrow> fields" where
  "send_fields_to_gpu f =
     (if fld_data_is_on_gpu f then f
      else f\<lparr>fld_data_is_on_gpu := True, fld_transfers := Suc (fld_transfers f)\<rparr>)"

text \<open>
  Modelled from the spec: \<open>Fields.receive_fields_from_gpu\<close> is not among the sources
  at hand. A device-receive transfers the storage of a resident aggregate back to the
  host and clears the flag; a host-resident aggregate is skipped.
\<close>

definition receive_fields_from_gpu :: "fields \<Rightarrow> fields" where
  "receive_fields_from_gpu f =
     (if fld_data_is_on_gpu f
      then f\<lparr>fld_data_is_on_gpu := False, fld_transfers := Suc (fld_transfers f)\<rparr>
      else f)"

text \<open>
  Modelled from the spec: \<open>Particles.send_particles_to_gpu\<close> is not among the sources
  at hand; it is the device-send of a particle species, as above.
\<close>

definition send_particles_to_gpu :: "particles \<Rightarrow> particles" where
  "send_particles_to_gpu species =
     (if ptcl_data_is_on_gpu species then species
      else species\<lparr>ptcl_data_is_on_gpu := True,
                   ptcl_transfers := Suc (ptcl_transfers species)\<rparr>)"

text \<open>
  Modelled from the spec: \<open>Particles.receive_particles_from_gpu\<close> is not among the
  sources at hand; it is the device-receive of a particle species, as above.
\<close>

definition receive_particles_from_gpu :: "particles \<Rightarrow> particles" where
  "receive_particles_from_gpu species =
     (if ptcl_data_is_on_gpu species
      then species\<lparr>ptcl_data_is_on_gpu := False,
                   ptcl_transfers := Suc (ptcl_transfers species)\<rparr>
      else species)"

text \<open>The two free operations of \<open>cuda.py\<close>. Each species is sent or received only
  if its own \<open>use_cuda\<close> is set; the field structure always is.\<close>

definition send_data_to_gpu :: "simulation \<Rightarrow> simulation" where
  "send_data_to_gpu simulation =
     (let s1 = simulation\<lparr>ptcl :=
                 map (\<lambda>species. if ptcl_use_cuda species
                                 then send_particles_to_gpu species else species)
                     (ptcl simulation)\<rparr>
      in s1\<lparr>fld := send_fields_to_gpu (fld s1)\<rparr>)"

definition receive_data_from_gpu :: "simulation \<Rightarrow> simulation" where
  "receive_data_from_gpu simulation =
     (let s1 = simulation\<lparr>ptcl :=
                 map (\<lambda>species. if ptcl_use_cuda species
                                 then receive_particles_from_gpu species else species)
                     (ptcl simulation)\<rparr>
      in s1\<lparr>fld := receive_fields_from_gpu (fld s1)\<rparr>)"

subsection \<open>The scoped guard \<open>GpuMemoryManager\<close>\<close>

text \<open>The guard's own attributes. Its reference to the simulation is the simulation
  state that the model passes along.\<close>

record GpuMemoryManager =
  fields_were_on_gpu :: bool
  species_were_on_gpu :: "bool list"

definition GpuMemoryManager_init :: "simulation \<Rightarrow> GpuMemoryManager" where
  "GpuMemoryManager_init simulation =
     \<lparr>fields_were_on_gpu = fld_data_is_on_gpu (fld simulation),
      species_were_on_gpu = map ptcl_data_is_on_gpu (ptcl simulation)\<rparr>"

text \<open>
  The loop \<open>for i, species in enumerate(self.sim.ptcl)\<close> of \<open>__enter__\<close> and
  \<open>__exit__\<close>, from index \<open>i\<close> on; \<open>move\<close> is the species' transfer method. Reading
  \<open>self.species_were_on_gpu[i]\<close> past the end of the recorded list raises, and the
  species moved so far stay moved.
\<close>

fun guard_species ::
  "(particles \<Rightarrow> particles) \<Rightarrow> bool list \<Rightarrow> nat \<Rightarrow> particles list
     \<Rightarrow> particles list \<times> error option" where
  "guard_species move were i [] = ([], None)"
| "guard_species move were i (species # rest) =
     (if i < length were then
        (case guard_species move were (Suc i) rest of
           (rest', err) \<Rightarrow> ((if \<not> were ! i then move species else species) # rest', err))
      else (species # rest, Some IndexError))"

definition GpuMemoryManager_enter ::
  "GpuMemoryManager \<Rightarrow> simulation \<Rightarrow> simulation \<times> error option" where
  "GpuMemoryManager_enter self sim =
     (if use_cuda sim then
        (let s1 = (if \<not> fields_were_on_gpu self
                   then sim\<lparr>fld := send_fields_to_gpu (fld sim)\<rparr> else sim)
         in case guard_species send_particles_to_gpu (species_were_on_gpu self) 0 (ptcl s1) of
              (ps, err) \<Rightarrow> (s1\<lparr>ptcl := ps\<rparr>, err))
      else (sim, None))"

text \<open>
  \<open>__exit__\<close> receives the exception raised in the scope, if any, and does not look at
  it. It has no \<open>return\<close>, so what it returns is \<open>None\<close>, which is false: the second
  component is the truth value of the returned object.
\<close>

definition GpuMemoryManager_exit ::
  "GpuMemoryManager \<Rightarrow> error option \<Rightarrow> simulation \<Rightarrow> simulation \<times> bool \<times> error option" where
  "GpuMemoryManager_exit self exc sim =
     (if use_cuda sim then
        (let s1 = (if \<not> fields_were_on_gpu self
                   then sim\<lparr>fld := receive_fields_from_gpu (fld sim)\<rparr> else sim)
         in case guard_species receive_particles_from_gpu (species_were_on_gpu self) 0
                   (ptcl s1) of
              (ps, err) \<Rightarrow> (s1\<lparr>ptcl := ps\<rparr>, False, err))
      else (sim, False, None))"

text \<open>
  The statement \<open>with GpuMemoryManager(sim): body\<close>. The body is any code that
  transforms the simulation and may raise. If \<open>__enter__\<close> raises, neither the body nor
  \<open>__exit__\<close> runs. An exception of \<open>__exit__\<close> replaces the one of the body; otherwise
  the body's exception is raised again unless \<open>__exit__\<close> returned a true value.
\<close>

definition with_guard ::
  "simulation \<Rightarrow> (simulation \<Rightarrow> simulation \<times> error option) \<Rightarrow> simulation \<times> error option" where
  "with_guard sim body =
     (let self = GpuMemoryManager_init sim in
      case GpuMemoryManager_enter self sim of
        (s1, Some e) \<Rightarrow> (s1, Some e)
      | (s1, None) \<Rightarrow>
          (case body s1 of
             (s2, exc) \<Rightarrow>
               (case GpuMemoryManager_exit self exc s2 of
                  (s3, suppress, Some e') \<Rightarrow> (s3, Some e')
                | (s3, suppress, None) \<Rightarrow> (s3, if suppress then None else exc))))"

text \<open>The residency flags of a simulation: the one of the field structure, and the
  one of each species in order.\<close>

definition residency :: "simulation \<Rightarrow> bool \<times> bool list" where
  "residency sim = (fld_data_is_on_gpu (fld sim), map ptcl_data_is_on_gpu (ptcl sim))"

text \<open>What the release does to a simulation when the recorded list covers every
  species: each aggregate that was on the host at acquisition is received.\<close>

definition restored :: "GpuMemoryManager \<Rightarrow> simulation \<Rightarrow> simulation" where
  "restored self sim =
     (if use_cuda sim then
        sim\<lparr>fld := (if \<not> fields_were_on_gpu self
                     then receive_fields_from_gpu (fld sim) else fld sim),
            ptcl := map (\<lambda>(was, species). if \<not> was then receive_particles_from_gpu species
                                           else species)
                        (zip (species_were_on_gpu self) (ptcl sim))\<rparr>
      else sim)"

text \<open>A simulation used to run the residency operations on: the field structure and
  the first species are on the host, the second species is already on the device.\<close>

definition sim_mixed :: simulation where
  "sim_mixed =
     \<lparr>use_cuda = True,
      fld = \<lparr>fld_data_is_on_gpu = False, fld_transfers = 0\<rparr>,
      ptcl = [\<lparr>ptcl_use_cuda = True, ptcl_data_is_on_gpu = False, ptcl_transfers = 0\<rparr>,
              \<lparr>ptcl_use_cuda = True, ptcl_data_is_on_gpu = True, ptcl_transfers = 0\<rparr>],
      laser_antennas = [], filter_currents = True, dispatched = []\<rparr>"

text \<open>Code for a guarded scope that adds a species, on the host, to the simulation and
  then raises.\<close>

definition scope_adds_species :: "simulation \<Rightarrow> simulation \<times> error option" where
  "scope_adds_species s =
     (s\<lparr>ptcl := ptcl s @
          [\<lparr>ptcl_use_cuda = True, ptcl_data_is_on_gpu = False, ptcl_transfers = 0\<rparr>]\<rparr>,
      Some (RuntimeError ''raised in scope''))"

section \<open>The kernel decorator \<open>compile_cupy\<close>\<close>

subsection \<open>Arguments of a kernel call\<close>

text \<open>A Python float is a finite binary fraction, an infinity or a NaN.\<close>

datatype pyfloat = Finite rat | PosInf | NegInf | NaN

text \<open>The objects that can be passed to a kernel besides arrays, and their classes.
  \<open>PyOther c\<close> is an object of any other class \<open>c\<close>. \<open>PySub v c h\<close> is the value
  \<open>v\<close> as an instance of a subclass \<open>c\<close> of its class, where the metaclass of \<open>c\<close>
  defines \<open>__hash__\<close>, so that \<open>hash(c)\<close> is \<open>h\<close>; its class is \<open>Thashed c h\<close>.\<close>

datatype pyval =
    PyInt int
  | PyFloat pyfloat
  | PyComplex pyfloat pyfloat
  | PyBool bool
  | PyStr string
  | PyNone
  | PyOther string
  | PySub pyval string int

datatype pytype =
  Tint | Tfloat | Tcomplex | Tbool | Tstr | TNoneType | Tclass string | Thashed string int

fun type_of :: "pyval \<Rightarrow> pytype" where
  "type_of (PyInt i) = Tint"
| "type_of (PyFloat x) = Tfloat"
| "type_of (PyComplex re im) = Tcomplex"
| "type_of (PyBool b) = Tbool"
| "type_of (PyStr s) = Tstr"
| "type_of PyNone = TNoneType"
| "type_of (PyOther c) = Tclass c"
| "type_of (PySub v c h) = Thashed c h"

text \<open>A device array: the address of its storage and the attributes that the
  decorator reads. Its rank and its element count derive from the shape.\<close>

record dtype =
  dtype_name :: string
  itemsize :: nat

record ndarray =
  data_ptr :: nat
  dtype :: dtype
  shape :: "nat list"
  strides :: "int list"

definition ndim :: "ndarray \<Rightarrow> nat" where
  "ndim a = length (shape a)"

definition size_of :: "ndarray \<Rightarrow> nat" where
  "size_of a = prod_list (shape a)"

text \<open>An argument either is an instance of \<open>cupy.ndarray\<close> or is not.\<close>

datatype arg = Array ndarray | Obj pyval

subsection \<open>\<open>get_args_hash\<close>\<close>

text \<open>The entries of the list \<open>types\<close>: a dtype, a number of dimensions, or a class.\<close>

datatype type_entry = DType dtype | NDim nat | PyType pytype

fun types_loop :: "arg list \<Rightarrow> type_entry list \<Rightarrow> type_entry list" where
  "types_loop [] types = types"
| "types_loop (Array a # rest) types = types_loop rest (types @ [DType (dtype a), NDim (ndim a)])"
| "types_loop (Obj v # rest) types = types_loop rest (types @ [PyType (type_of v)])"

text \<open>Python's built-in \<open>hash\<close> on tuples is not part of the sources; it is the
  parameter \<open>py_hash\<close>.\<close>

definition get_args_hash :: "(type_entry list \<Rightarrow> int) \<Rightarrow> arg list \<Rightarrow> int" where
  "get_args_hash py_hash args = py_hash (types_loop args [])"

text \<open>
  What is known of the parameter. Python computes the hash of a tuple from the hashes
  of its items, in order; that computation, \<open>tuple_hash\<close>, is the interpreter's. The
  hash of an item that is a class whose metaclass defines \<open>__hash__\<close> is the value of
  that method. The hashes of the other items (classes hashed by their address, dtypes,
  dimension counts) are those of the running process, \<open>env\<close>.
\<close>

fun item_hash :: "(type_entry \<Rightarrow> int) \<Rightarrow> type_entry \<Rightarrow> int" where
  "item_hash env (PyType (Thashed c h)) = h"
| "item_hash env entry = env entry"

definition python_hash ::
  "(int list \<Rightarrow> int) \<Rightarrow> (type_entry \<Rightarrow> int) \<Rightarrow> type_entry list \<Rightarrow> int" where
  "python_hash tuple_hash env types = tuple_hash (map (item_hash env) types)"

subsection \<open>\<open>call_kernel\<close>\<close>

text \<open>The loop that fills \<open>kernel_args\<close>.\<close>

definition py_int :: "int \<Rightarrow> arg" where
  "py_int i = Obj (PyInt i)"

fun kernel_args_loop :: "arg list \<Rightarrow> arg list \<Rightarrow> arg list" where
  "kernel_args_loop [] kernel_args = kernel_args"
| "kernel_args_loop (Array a # rest) kernel_args =
     kernel_args_loop rest
       (kernel_args @
        ([py_int 0, py_int 0, py_int (int (size_of a)), py_int (int (itemsize (dtype a))), Array a]
         @ map (\<lambda>n. py_int (int n)) (shape a) @ map py_int (strides a)))"
| "kernel_args_loop (Obj v # rest) kernel_args = kernel_args_loop rest (kernel_args @ [Obj v])"

text \<open>
  The decorator object owns \<open>kernel_dict\<close>. A compiled kernel is named by the position
  of its compilation in \<open>jit_log\<close>, the list of the argument lists that the external
  compiler was asked to specialise the function for, so that every compilation yields a
  new handle. \<open>launch_log\<close> lists the launches: the handle, the blocks per grid, the
  threads per block and the prepared arguments.
\<close>

record compile_cupy =
  kernel_dict :: "int \<rightharpoonup> nat"
  jit_log :: "arg list list"
  launch_log :: "(nat \<times> int list \<times> int list \<times> arg list) list"

definition compile_cupy_init :: compile_cupy where
  "compile_cupy_init = \<lparr>kernel_dict = Map.empty, jit_log = [], launch_log = []\<rparr>"

text \<open>
  \<open>jit args\<close> is the outcome of specialising and loading the function for \<open>args\<close>:
  \<open>None\<close> when it succeeds, the error it raises otherwise. A failed compilation leaves
  \<open>kernel_dict\<close> as it was and ends the call.
\<close>

definition call_kernel ::
  "(type_entry list \<Rightarrow> int) \<Rightarrow> (arg list \<Rightarrow> error option) \<Rightarrow> int list \<times> int list \<Rightarrow> arg list
     \<Rightarrow> compile_cupy \<Rightarrow> compile_cupy \<times> error option" where
  "call_kernel py_hash jit bt args self =
     (let hash = get_args_hash py_hash args in
      case (if kernel_dict self hash = None then
              (let s1 = self\<lparr>jit_log := jit_log self @ [args]\<rparr> in
               case jit args of
                 Some e \<Rightarrow> (s1, Some e)
               | None \<Rightarrow>
                   (s1\<lparr>kernel_dict := (kernel_dict s1)(hash \<mapsto> length (jit_log self))\<rparr>, None))
            else (self, None)) of
        (s2, Some e) \<Rightarrow> (s2, Some e)
      | (s2, None) \<Rightarrow>
          (let kernel_args = kernel_args_loop args [] in
           (s2\<lparr>launch_log := launch_log s2 @
                  [(the (kernel_dict s2 hash), fst bt, snd bt, kernel_args)]\<rparr>, None)))"

text \<open>A sequence of calls through one decorator object; the first error ends it.\<close>

fun call_all ::
  "(type_entry list \<Rightarrow> int) \<Rightarrow> (arg list \<Rightarrow> error option)
     \<Rightarrow> ((int list \<times> int list) \<times> arg list) list \<Rightarrow> compile_cupy
     \<Rightarrow> compile_cupy \<times> error option" where
  "call_all py_hash jit [] self = (self, None)"
| "call_all py_hash jit ((bt, args) # rest) self =
     (case call_kernel py_hash jit bt args self of
        (s, Some e) \<Rightarrow> (s, Some e)
      | (s, None) \<Rightarrow> call_all py_hash jit rest s)"

subsection \<open>The specification's view\<close>

text \<open>The argument signature in the words of the specification: one entry per
  argument, the scalar kind of a non-array, the element kind and the rank of an array.\<close>

datatype sig_entry = ScalarKind pytype | ArrayKind dtype nat

fun sig_of :: "arg \<Rightarrow> sig_entry" where
  "sig_of (Array a) = ArrayKind (dtype a) (ndim a)"
| "sig_of (Obj v) = ScalarKind (type_of v)"

definition signature :: "arg list \<Rightarrow> sig_entry list" where
  "signature args = map sig_of args"

text \<open>The marshalled form of one argument in the words of the specification: for an
  array two placeholders, the element count, the element width, the handle, the extents
  and the strides; a scalar as it is.\<close>

fun marshalled :: "arg \<Rightarrow> arg list" where
  "marshalled (Array a) =
     [py_int 0, py_int 0, py_int (int (size_of a)), py_int (int (itemsize (dtype a))), Array a]
     @ map (\<lambda>n. py_int (int n)) (shape a) @ map py_int (strides a)"
| "marshalled (Obj v) = [Obj v]"

text \<open>The arrays that occur in an argument list, in order.\<close>

fun arrays_of :: "arg list \<Rightarrow> ndarray list" where
  "arrays_of [] = []"
| "arrays_of (Array a # rest) = a # arrays_of rest"
| "arrays_of (Obj v # rest) = arrays_of rest"

text \<open>The invariant of a decorator object that has served the calls \<open>done\<close>, all of
  them compiled successfully.\<close>

definition cache_inv :: "(type_entry list \<Rightarrow> int) \<Rightarrow> arg list list \<Rightarrow> compile_cupy \<Rightarrow> bool" where
  "cache_inv py_hash done self \<longleftrightarrow>
     dom (kernel_dict self) = get_args_hash py_hash ` set done
   \<and> (\<forall>a \<in> set done. \<exists>k. kernel_dict self (get_args_hash py_hash a) = Some k
          \<and> k < length (jit_log self)
          \<and> get_args_hash py_hash (jit_log self ! k) = get_args_hash py_hash a)
   \<and> length (jit_log self) = card (get_args_hash py_hash ` set done)
   \<and> map fst (launch_log self) =
       map (\<lambda>a. the (kernel_dict self (get_args_hash py_hash a))) done"

text \<open>Two arrays and a grid for running the decorator: single precision of rank 1,
  double precision of rank 2.\<close>

definition float32 :: dtype where
  "float32 = \<lparr>dtype_name = ''float32'', itemsize = 4\<rparr>"

definition float64 :: dtype where
  "float64 = \<lparr>dtype_name = ''float64'', itemsize = 8\<rparr>"

definition arr_f32 :: ndarray where
  "arr_f32 = \<lparr>data_ptr = 4096, dtype = float32, shape = [1000], strides = [4]\<rparr>"

definition arr_f64 :: ndarray where
  "arr_f64 = \<lparr>data_ptr = 8192, dtype = float64, shape = [10, 50], strides = [400, 8]\<rparr>"

definition grid :: "int list \<times> int list" where
  "grid = ([4], [256])"

text \<open>
  Two scalars of classes with equal hashes: with
  \<open>class M(type)\<close> defining \<open>__hash__\<close> to return 42,
  \<open>class F1(float, metaclass=M)\<close> and \<open>class I1(int, metaclass=M)\<close>, the float
  \<open>F1(1.0)\<close> and the integer \<open>I1(1)\<close>.
\<close>

definition float_F1 :: pyval where
  "float_F1 = PySub (PyFloat (Finite 1)) ''F1'' 42"

definition int_I1 :: pyval where
  "int_I1 = PySub (PyInt 1) ''I1'' 42"

section \<open>Launch geometry (\<open>cuda_tpb_bpg_1d\<close>)\<close>

text \<open>
  The file is Python 3 (it unpacks with a star inside a list display), so \<open>x/TPB\<close>
  on integers is true division: the quotient correctly rounded to a double. The sum with
  1 is a floating-point addition, and \<open>int\<close> truncates towards zero. Finite doubles are
  modelled by the rationals they denote, with IEEE 754 binary64 rounding to nearest,
  ties to even, written out.
\<close>

text \<open>Rounding a rational to an integer, halves to the even neighbour.\<close>

definition round_half_even :: "rat \<Rightarrow> int" where
  "round_half_even y =
     (let f = \<lfloor>y\<rfloor>; d = y - of_int f
      in if d < 1 / 2 then f else if 1 / 2 < d then f + 1 else if even f then f else f + 1)"

text \<open>The binary exponent of a positive rational \<open>q\<close>: the \<open>e\<close> with
  \<open>2 ^ e \<le> q < 2 ^ (e + 1)\<close>, found from the bit lengths of numerator and denominator.\<close>

definition binary_exponent :: "rat \<Rightarrow> int" where
  "binary_exponent q =
     (case quotient_of q of
        (n, d) \<Rightarrow> (let e = bitlen n - bitlen d in if 2 powi e \<le> q then e else e - 1))"

text \<open>A positive rational rounded to 53 significant bits, or to a multiple of the
  smallest subnormal below the normal range; the exponent is not bounded above here.\<close>

definition round_double_pos :: "rat \<Rightarrow> rat" where
  "round_double_pos q =
     (let e = max (binary_exponent q) (- 1022); ulp = 2 powi (e - 52)
      in of_int (round_half_even (q / ulp)) * ulp)"

text \<open>Rounding to a double: a magnitude that rounds to \<open>2 ^ 1024\<close> or more overflows
  to an infinity.\<close>

definition round_double :: "rat \<Rightarrow> pyfloat" where
  "round_double q =
     (if q = 0 then Finite 0
      else (let r = round_double_pos \<bar>q\<bar>
            in if 2 powi 1024 \<le> r then (if 0 < q then PosInf else NegInf)
               else Finite (sgn q * r)))"

text \<open>\<open>a / b\<close> on Python integers.\<close>

definition int_truediv :: "int \<Rightarrow> int \<Rightarrow> error + pyfloat" where
  "int_truediv a b =
     (if b = 0 then Inl ZeroDivisionError
      else (case round_double (of_int a / of_int b) of
              Finite r \<Rightarrow> Inr (Finite r)
            | _ \<Rightarrow> Inl OverflowError))"

text \<open>\<open>a + b\<close> on Python floats.\<close>

fun float_add :: "pyfloat \<Rightarrow> pyfloat \<Rightarrow> pyfloat" where
  "float_add (Finite a) (Finite b) = round_double (a + b)"
| "float_add NaN y = NaN"
| "float_add x NaN = NaN"
| "float_add PosInf NegInf = NaN"
| "float_add NegInf PosInf = NaN"
| "float_add PosInf y = PosInf"
| "float_add NegInf y = NegInf"
| "float_add x PosInf = PosInf"
| "float_add x NegInf = NegInf"

text \<open>\<open>int(f)\<close> on a Python float.\<close>

fun int_of_float :: "pyfloat \<Rightarrow> error + int" where
  "int_of_float (Finite r) = Inr (if 0 \<le> r then \<lfloor>r\<rfloor> else \<lceil>r\<rceil>)"
| "int_of_float NaN = Inl (ValueError ''cannot convert float NaN to integer'')"
| "int_of_float x = Inl OverflowError"

text \<open>\<open>BPG = int(x/TPB + 1); return BPG, TPB\<close>, on integer arguments.\<close>

definition cuda_tpb_bpg_1d :: "int \<Rightarrow> int \<Rightarrow> error + int \<times> int" where
  "cuda_tpb_bpg_1d x TPB =
     (case int_truediv x TPB of
        Inl e \<Rightarrow> Inl e
      | Inr q \<Rightarrow>
          (case int_of_float (float_add q (Finite 1)) of
             Inl e \<Rightarrow> Inl e
           | Inr BPG \<Rightarrow> Inr (BPG, TPB)))"

section \<open>Properties of device assignment\<close>

lemma selected_append: "selected (xs @ ys) = selected xs @ selected ys"
  by (induction xs rule: selected.induct) simp_all

lemma select_loop_selected:
  "0 < n \<Longrightarrow>
   \<exists>evs'. select_loop r n is evs = Inr evs' \<and>
          selected evs' = selected evs @ filter (\<lambda>i. int i = r mod int n) is"
proof (induction "is" arbitrary: evs)
  case Nil
  then show ?case by simp
next
  case (Cons i "is")
  let ?evs = "(if r mod int n = int i then evs @ [SelectDevice i] else evs) @ [Barrier]"
  from Cons.IH [OF Cons.prems, of ?evs] obtain evs' where
    run: "select_loop r n is ?evs = Inr evs'" and
    sel: "selected evs' = selected ?evs @ filter (\<lambda>i. int i = r mod int n) is"
    by blast
  from Cons.prems have "select_loop r n (i # is) evs = Inr evs'"
    using run by (simp add: py_mod_def)
  moreover have "selected evs' = selected evs @ filter (\<lambda>i. int i = r mod int n) (i # is)"
    using sel by (auto simp: selected_append)
  ultimately show ?case by blast
qed

lemma filter_eq_upt: "filter (\<lambda>i. i = k) [0..<n] = (if k < n then [k] else [])"
  by (induction n) auto

lemma devices_of_mod:
  assumes "0 < n" and "0 \<le> r"
  shows "devices_of n r = [nat (r mod int n)]"
proof -
  from select_loop_selected [OF assms(1), of r "[0..<n]" "[]"] obtain evs' where
    run: "mpi_select_gpus n r = Inr evs'" and
    sel: "selected evs' = filter (\<lambda>i. int i = r mod int n) [0..<n]"
    using assms(1) by (auto simp: mpi_select_gpus_def cuda_gpus_len_def)
  from assms have bounds: "0 \<le> r mod int n" "r mod int n < int n" by simp_all
  then have "(\<lambda>i. int i = r mod int n) = (\<lambda>i. i = nat (r mod int n))" by auto
  then have "selected evs' = (if nat (r mod int n) < n then [nat (r mod int n)] else [])"
    using sel by (simp add: filter_eq_upt)
  moreover from bounds have "nat (r mod int n) < n" by simp
  ultimately show ?thesis using run by (simp add: devices_of_def)
qed

lemma devices_of_nat: "0 < n \<Longrightarrow> devices_of n (int k) = [k mod n]"
  using devices_of_mod [of n "int k"] by (simp add: zmod_int [symmetric])

text \<open>
  Claim C6. For a rank \<open>r \<ge> 0\<close> and \<open>n \<ge> 1\<close> visible devices, the process of rank \<open>r\<close> binds
  exactly one device, the one of index \<open>r mod n\<close>. Hence two devices and the ranks
  \<open>0..4\<close> give the assignment \<open>0,1,0,1,0\<close>; with at least as many processes as devices
  every device is bound by some process; with at most as many processes as devices,
  distinct ranks bind distinct devices.
\<close>

theorem device_assignment_round_robin:
  assumes "1 \<le> n" and "0 \<le> r"
  shows "devices_of n r = [nat (r mod int n)]
       \<and> map (\<lambda>k. devices_of 2 (int k)) [0..<5] = [[0], [1], [0], [1], [0]]
       \<and> (n \<le> P \<longrightarrow> (\<forall>d<n. \<exists>k<P. devices_of n (int k) = [d]))
       \<and> (P \<le> n \<longrightarrow> inj_on (\<lambda>k. devices_of n (int k)) {0..<P})"
proof -
  from assms have npos: "0 < n" by simp
  have dev: "devices_of n (int k) = [k mod n]" for k
    using devices_of_nat [OF npos] .
  have two: "devices_of 2 (int k) = [k mod 2]" for k
    using devices_of_nat [of 2 k] by simp
  have "devices_of n r = [nat (r mod int n)]"
    using devices_of_mod [OF npos assms(2)] .
  moreover have "map (\<lambda>k. devices_of 2 (int k)) [0..<5] = [[0], [1], [0], [1], [0]]"
    by (simp add: two upt_rec)
  moreover have "n \<le> P \<longrightarrow> (\<forall>d<n. \<exists>k<P. devices_of n (int k) = [d])"
  proof (intro impI allI)
    fix d assume "n \<le> P" "d < n"
    then have "d < P" "devices_of n (int d) = [d]" by (simp_all add: dev)
    then show "\<exists>k<P. devices_of n (int k) = [d]" by blast
  qed
  moreover have "P \<le> n \<longrightarrow> inj_on (\<lambda>k. devices_of n (int k)) {0..<P}"
  proof
    assume "P \<le> n"
    show "inj_on (\<lambda>k. devices_of n (int k)) {0..<P}"
    proof (rule inj_onI)
      fix a b assume "a \<in> {0..<P}" "b \<in> {0..<P}"
        and eq: "devices_of n (int a) = devices_of n (int b)"
      with \<open>P \<le> n\<close> have "a < n" "b < n" by simp_all
      with eq show "a = b" by (simp add: dev)
    qed
  qed
  ultimately show ?thesis by blast
qed

theorem device_assignment_round_robin_witness:
  "(1::nat) \<le> 2 \<and> (0::int) \<le> 3 \<and> devices_of 2 3 = [1]
   \<and> (\<exists>k<2. devices_of 2 (int k) = [0]) \<and> (\<exists>k<2. devices_of 2 (int k) = [1])
   \<and> inj_on (\<lambda>k. devices_of 2 (int k)) {0..<2}"
  using device_assignment_round_robin [of 2 3 2] by simp

text \<open>
  Claim C8. With no visible device the operation does not complete: the device query
  that opens it raises \<open>CudaSupportError\<close>, which reaches the caller. No device is
  bound, no barrier is joined, and there is no other path.
\<close>

theorem no_device_is_an_error:
  "mpi_select_gpus 0 rank = Inl CudaSupportError \<and> devices_of 0 rank = []"
  by (simp add: mpi_select_gpus_def cuda_gpus_len_def devices_of_def)

section \<open>Properties of deposition\<close>

text \<open>
  Claim C9. A field designation other than \<open>rho_prev\<close>, \<open>rho_next\<close> and \<open>J\<close> is rejected
  with a \<open>ValueError\<close> naming it, and nothing has been dispatched: the simulation,
  with its log of erase, deposition, exchange and transform requests, is unchanged.
\<close>

theorem deposit_unknown_fieldtype:
  assumes "fieldtype \<notin> {''rho_prev'', ''rho_next'', ''J''}"
  shows "deposit self fieldtype =
           (self, Some (ValueError (''Unknown fieldtype: '' @ fieldtype)))"
  using assms by (simp add: deposit_def)

theorem deposit_unknown_fieldtype_witness:
  "''E'' \<notin> {''rho_prev'', ''rho_next'', ''J''} \<and>
   deposit \<lparr>use_cuda = False, fld = \<lparr>fld_data_is_on_gpu = False, fld_transfers = 0\<rparr>,
            ptcl = [], laser_antennas = [], filter_currents = True, dispatched = []\<rparr> ''E'' =
     (\<lparr>use_cuda = False, fld = \<lparr>fld_data_is_on_gpu = False, fld_transfers = 0\<rparr>,
       ptcl = [], laser_antennas = [], filter_currents = True, dispatched = []\<rparr>,
      Some (ValueError ''Unknown fieldtype: E''))"
  using deposit_unknown_fieldtype [of "''E''"] by simp

section \<open>Properties of the residency manager\<close>

lemma guard_species_covered:
  "i + length ps \<le> length were \<Longrightarrow>
   guard_species move were i ps =
     (map (\<lambda>(was, species). if \<not> was then move species else species)
          (zip (drop i were) ps), None)"
proof (induction ps arbitrary: i)
  case Nil
  then show ?case by simp
next
  case (Cons p ps)
  then have i: "i < length were" and rest: "Suc i + length ps \<le> length were" by simp_all
  from i have "drop i were = were ! i # drop (Suc i) were"
    by (simp add: Cons_nth_drop_Suc)
  with Cons.IH [OF rest] i show ?case by simp
qed

lemma zip_map_self:
  "map (\<lambda>(was, species). g was species) (zip (map f ps) ps) = map (\<lambda>species. g (f species) species) ps"
  by (induction ps) simp_all

lemma enter_after_init:
  "GpuMemoryManager_enter (GpuMemoryManager_init sim) sim =
     ((if use_cuda sim then
         sim\<lparr>fld := send_fields_to_gpu (fld sim),
             ptcl := map send_particles_to_gpu (ptcl sim)\<rparr>
       else sim), None)"
proof -
  have sp: "(\<lambda>species. if \<not> ptcl_data_is_on_gpu species then send_particles_to_gpu species
                        else species) = send_particles_to_gpu"
    by (auto simp: send_particles_to_gpu_def)
  show ?thesis
    by (cases "fld_data_is_on_gpu (fld sim)")
       (simp_all add: GpuMemoryManager_enter_def GpuMemoryManager_init_def
          guard_species_covered zip_map_self sp send_fields_to_gpu_def)
qed

lemma exit_covered:
  "length (ptcl sim) \<le> length (species_were_on_gpu self) \<Longrightarrow>
   GpuMemoryManager_exit self exc sim = (restored self sim, False, None)"
  by (simp add: GpuMemoryManager_exit_def restored_def guard_species_covered)

lemma send_particles_flag: "ptcl_data_is_on_gpu (send_particles_to_gpu species)"
  by (simp add: send_particles_to_gpu_def)

lemma send_fields_flag: "fld_data_is_on_gpu (send_fields_to_gpu f)"
  by (simp add: send_fields_to_gpu_def)

lemma flags_after_receive:
  "length were = length ps \<Longrightarrow> \<forall>species \<in> set ps. ptcl_data_is_on_gpu species \<Longrightarrow>
   map ptcl_data_is_on_gpu
     (map (\<lambda>(was, species). if \<not> was then receive_particles_from_gpu species else species)
          (zip were ps)) = were"
  by (induction were ps rule: list_induct2) (simp_all add: receive_particles_from_gpu_def)

lemma with_guard_unfold:
  assumes "body (fst (GpuMemoryManager_enter (GpuMemoryManager_init sim) sim)) = (s2, exc)"
    and "length (ptcl s2) \<le> length (ptcl sim)"
  shows "with_guard sim body = (restored (GpuMemoryManager_init sim) s2, exc)"
proof -
  have len: "length (ptcl s2) \<le> length (species_were_on_gpu (GpuMemoryManager_init sim))"
    using assms(2) by (simp add: GpuMemoryManager_init_def)
  obtain s1 where s1: "GpuMemoryManager_enter (GpuMemoryManager_init sim) sim = (s1, None)"
    by (simp add: enter_after_init)
  with assms(1) have "body s1 = (s2, exc)" by simp
  then show ?thesis
    by (simp add: with_guard_def s1 exit_covered [OF len])
qed

text \<open>
  Claim C4. Take any simulation, with any residency flags, and any code for the guarded
  scope that leaves \<open>use_cuda\<close> and the residency flags as it finds them, whether it
  raises or not. After acquisition, scope and release, every residency flag has the
  value it had before acquisition.
\<close>

theorem guard_restores_residency:
  assumes "body (fst (GpuMemoryManager_enter (GpuMemoryManager_init sim) sim)) = (s2, exc)"
    and "use_cuda s2 = use_cuda sim"
    and "residency s2 =
           residency (fst (GpuMemoryManager_enter (GpuMemoryManager_init sim) sim))"
  shows "residency (fst (with_guard sim body)) = residency sim"
proof -
  let ?g = "GpuMemoryManager_init sim"
  have len: "length (ptcl s2) = length (ptcl sim)"
    using assms(3) by (auto simp: residency_def enter_after_init dest: map_eq_imp_length_eq)
  then have run: "with_guard sim body = (restored ?g s2, exc)"
    using with_guard_unfold [where body = body and sim = sim and ?s2.0 = s2 and exc = exc]
      assms(1) by simp
  show ?thesis
  proof (cases "use_cuda sim")
    case False
    with assms(2,3) run show ?thesis
      by (simp add: restored_def enter_after_init)
  next
    case True
    from assms(3) True have fld2: "fld_data_is_on_gpu (fld s2)"
      and ps2: "map ptcl_data_is_on_gpu (ptcl s2) = map (\<lambda>_. True) (ptcl sim)"
      by (simp_all add: residency_def enter_after_init send_fields_flag
          send_particles_flag comp_def)
    from ps2 have all_on: "\<forall>species \<in> set (ptcl s2). ptcl_data_is_on_gpu species"
    proof -
      have "set (map ptcl_data_is_on_gpu (ptcl s2)) \<subseteq> {True}"
        unfolding ps2 by auto
      then show ?thesis by auto
    qed
    have "map ptcl_data_is_on_gpu (ptcl (restored ?g s2)) = species_were_on_gpu ?g"
      using True assms(2) flags_after_receive [of "species_were_on_gpu ?g" "ptcl s2"] len all_on
      by (simp add: restored_def GpuMemoryManager_init_def)
    moreover have "fld_data_is_on_gpu (fld (restored ?g s2)) = fields_were_on_gpu ?g"
      using True assms(2) fld2
      by (simp add: restored_def receive_fields_from_gpu_def)
    ultimately show ?thesis
      using run by (simp add: residency_def GpuMemoryManager_init_def)
  qed
qed

theorem guard_restores_residency_witness:
  "residency sim_mixed = (False, [False, True]) \<and>
   residency (fst (GpuMemoryManager_enter (GpuMemoryManager_init sim_mixed) sim_mixed)) =
     (True, [True, True]) \<and>
   residency (fst (with_guard sim_mixed (\<lambda>s. (s, Some (RuntimeError ''raised in scope''))))) =
     (False, [False, True])"
  using guard_restores_residency
    [of "\<lambda>s. (s, Some (RuntimeError ''raised in scope''))" sim_mixed
        "fst (GpuMemoryManager_enter (GpuMemoryManager_init sim_mixed) sim_mixed)"
        "Some (RuntimeError ''raised in scope'')"]
  by (simp add: enter_after_init residency_def sim_mixed_def send_fields_to_gpu_def
      send_particles_to_gpu_def)

text \<open>
  Claim C10, as the code has it. When the code of the guarded scope raises an error,
  and the species list is then no longer than it was at acquisition, the release
  receives back every aggregate that was on the host at acquisition, returns a false
  value, and the very error of the scope reaches the caller.
\<close>

theorem guard_propagates_error:
  assumes "body (fst (GpuMemoryManager_enter (GpuMemoryManager_init sim) sim)) = (s2, Some e)"
    and "length (ptcl s2) \<le> length (ptcl sim)"
  shows "with_guard sim body = (restored (GpuMemoryManager_init sim) s2, Some e)
       \<and> GpuMemoryManager_exit (GpuMemoryManager_init sim) (Some e) s2 =
           (restored (GpuMemoryManager_init sim) s2, False, None)"
proof -
  have "length (ptcl s2) \<le> length (species_were_on_gpu (GpuMemoryManager_init sim))"
    using assms(2) by (simp add: GpuMemoryManager_init_def)
  then show ?thesis
    using with_guard_unfold
      [where body = body and sim = sim and ?s2.0 = s2 and exc = "Some e"] assms
    by (simp add: exit_covered)
qed

theorem guard_propagates_error_witness:
  "with_guard sim_mixed (\<lambda>s. (s, Some (RuntimeError ''raised in scope''))) =
     (sim_mixed\<lparr>fld := \<lparr>fld_data_is_on_gpu = False, fld_transfers = 2\<rparr>,
        ptcl := [\<lparr>ptcl_use_cuda = True, ptcl_data_is_on_gpu = False, ptcl_transfers = 2\<rparr>,
                 \<lparr>ptcl_use_cuda = True, ptcl_data_is_on_gpu = True, ptcl_transfers = 0\<rparr>]\<rparr>,
      Some (RuntimeError ''raised in scope''))"
proof -
  let ?body = "\<lambda>s. (s, Some (RuntimeError ''raised in scope''))"
  let ?s1 = "fst (GpuMemoryManager_enter (GpuMemoryManager_init sim_mixed) sim_mixed)"
  have "length (ptcl ?s1) \<le> length (ptcl sim_mixed)"
    unfolding enter_after_init by simp
  with guard_propagates_error [of ?body sim_mixed ?s1 "RuntimeError ''raised in scope''"]
  have "with_guard sim_mixed ?body =
          (restored (GpuMemoryManager_init sim_mixed) ?s1, Some (RuntimeError ''raised in scope''))"
    by simp
  then show ?thesis
    unfolding enter_after_init
    by (simp add: restored_def GpuMemoryManager_init_def sim_mixed_def
        send_fields_to_gpu_def send_particles_to_gpu_def receive_fields_from_gpu_def
        receive_particles_from_gpu_def)
qed

text \<open>
  When the scope has added a species before it raises, the release reads the recorded
  list past its end: the caller gets the \<open>IndexError\<close> of the release in place of the
  error of the scope.
\<close>

theorem guard_error_replaced_counterexample:
  "snd (scope_adds_species
          (fst (GpuMemoryManager_enter (GpuMemoryManager_init sim_mixed) sim_mixed))) =
     Some (RuntimeError ''raised in scope'')
   \<and> snd (with_guard sim_mixed scope_adds_species) = Some IndexError"
  by (simp add: with_guard_def GpuMemoryManager_init_def GpuMemoryManager_enter_def
      GpuMemoryManager_exit_def sim_mixed_def scope_adds_species_def Let_def)

lemma send_particles_twice:
  "send_particles_to_gpu (send_particles_to_gpu species) = send_particles_to_gpu species"
  by (simp add: send_particles_to_gpu_def)

lemma send_fields_twice: "send_fields_to_gpu (send_fields_to_gpu f) = send_fields_to_gpu f"
  by (simp add: send_fields_to_gpu_def)

lemma send_particles_use_cuda:
  "ptcl_use_cuda (send_particles_to_gpu species) = ptcl_use_cuda species"
  by (simp add: send_particles_to_gpu_def)

lemma send_particles_explicit:
  "send_particles_to_gpu species =
     species\<lparr>ptcl_data_is_on_gpu := True,
             ptcl_transfers := ptcl_transfers species +
               (if ptcl_data_is_on_gpu species then 0 else 1)\<rparr>"
  by (cases species) (simp add: send_particles_to_gpu_def)

lemma send_fields_explicit:
  "send_fields_to_gpu f =
     f\<lparr>fld_data_is_on_gpu := True,
       fld_transfers := fld_transfers f + (if fld_data_is_on_gpu f then 0 else 1)\<rparr>"
  by (cases f) (simp add: send_fields_to_gpu_def)

text \<open>
  Claim C5, as the code has it. Sending twice in a row is the same as sending once: the
  second call transfers nothing and changes nothing. The first call makes the field
  structure resident, with one transfer if it was on the host and none if it was
  resident; it does the same for each species whose own \<open>use_cuda\<close> is set, and leaves
  every other species as it was.
\<close>

theorem send_twice_is_send_once:
  "send_data_to_gpu (send_data_to_gpu sim) = send_data_to_gpu sim
   \<and> fld (send_data_to_gpu sim) =
       (fld sim)\<lparr>fld_data_is_on_gpu := True,
                 fld_transfers := fld_transfers (fld sim) +
                   (if fld_data_is_on_gpu (fld sim) then 0 else 1)\<rparr>
   \<and> ptcl (send_data_to_gpu sim) =
       map (\<lambda>species.
              if ptcl_use_cuda species
              then species\<lparr>ptcl_data_is_on_gpu := True,
                     ptcl_transfers := ptcl_transfers species +
                       (if ptcl_data_is_on_gpu species then 0 else 1)\<rparr>
              else species)
           (ptcl sim)"
proof -
  have "send_data_to_gpu (send_data_to_gpu sim) = send_data_to_gpu sim"
    by (simp add: send_data_to_gpu_def send_fields_twice send_particles_twice
        send_particles_use_cuda comp_def)
  moreover have "fld (send_data_to_gpu sim) =
       (fld sim)\<lparr>fld_data_is_on_gpu := True,
                 fld_transfers := fld_transfers (fld sim) +
                   (if fld_data_is_on_gpu (fld sim) then 0 else 1)\<rparr>"
    using send_fields_explicit [of "fld sim"] by (simp add: send_data_to_gpu_def)
  moreover have "ptcl (send_data_to_gpu sim) =
       map (\<lambda>species.
              if ptcl_use_cuda species
              then species\<lparr>ptcl_data_is_on_gpu := True,
                     ptcl_transfers := ptcl_transfers species +
                       (if ptcl_data_is_on_gpu species then 0 else 1)\<rparr>
              else species)
           (ptcl sim)"
    using send_particles_explicit by (simp add: send_data_to_gpu_def)
  ultimately show ?thesis by blast
qed

text \<open>A species on the host whose \<open>use_cuda\<close> is not set is not transferred by
  \<open>send_data_to_gpu\<close>: its flag stays false and its transfer count stays at zero.\<close>

theorem send_skips_species_counterexample:
  "ptcl (send_data_to_gpu
     \<lparr>use_cuda = True,
      fld = \<lparr>fld_data_is_on_gpu = False, fld_transfers = 0\<rparr>,
      ptcl = [\<lparr>ptcl_use_cuda = False, ptcl_data_is_on_gpu = False, ptcl_transfers = 0\<rparr>],
      laser_antennas = [], filter_currents = True, dispatched = []\<rparr>) =
   [\<lparr>ptcl_use_cuda = False, ptcl_data_is_on_gpu = False, ptcl_transfers = 0\<rparr>]"
  by (simp add: send_data_to_gpu_def)

section \<open>Properties of argument marshalling\<close>

lemma kernel_args_loop_acc:
  "kernel_args_loop args acc = acc @ concat (map marshalled args)"
  by (induction args acc rule: kernel_args_loop.induct) simp_all

lemma arrays_of_append: "arrays_of (xs @ ys) = arrays_of xs @ arrays_of ys"
  by (induction xs rule: arrays_of.induct) simp_all

lemma arrays_of_py_int: "arrays_of (py_int i # xs) = arrays_of xs"
  by (simp add: py_int_def)

lemma arrays_of_py_ints: "arrays_of (map (\<lambda>n. py_int (f n)) ns) = []"
  by (induction ns) (simp_all add: arrays_of_py_int)

lemma arrays_of_marshalled_one: "arrays_of (marshalled x) = arrays_of [x]"
proof (cases x)
  case (Array a)
  have "arrays_of (map py_int (strides a)) = []"
    using arrays_of_py_ints [of "\<lambda>n. n" "strides a"] by simp
  then show ?thesis
    using Array by (simp add: arrays_of_py_int arrays_of_append arrays_of_py_ints)
next
  case (Obj v)
  then show ?thesis by simp
qed

lemma arrays_of_marshalled: "arrays_of (concat (map marshalled args)) = arrays_of args"
proof (induction args)
  case Nil
  then show ?case by simp
next
  case (Cons x args)
  have "arrays_of (x # args) = arrays_of [x] @ arrays_of args"
    using arrays_of_append [of "[x]" args] by simp
  with Cons show ?case
    by (simp add: arrays_of_append arrays_of_marshalled_one del: marshalled.simps)
qed

text \<open>
  Claim C3. The list handed to the launched kernel is the concatenation, in the order of
  the arguments, of the marshalled form of each argument: for an array two zeros, its
  element count, its element width in bytes, the array itself, its extents and its
  strides; for a scalar the scalar itself. An array whose strides are as many as its
  extents takes \<open>5 + 2 * rank\<close> slots. The arrays in the marshalled list are the
  arrays of the call, the same objects in the same order, and the preparation has no
  state to change.
\<close>

theorem marshalling_layout:
  "kernel_args_loop args [] = concat (map marshalled args)
   \<and> marshalled (Obj v) = [Obj v]
   \<and> marshalled (Array a) =
       [py_int 0, py_int 0, py_int (int (size_of a)), py_int (int (itemsize (dtype a))), Array a]
       @ map (\<lambda>n. py_int (int n)) (shape a) @ map py_int (strides a)
   \<and> (length (strides a) = length (shape a) \<longrightarrow> length (marshalled (Array a)) = 5 + 2 * ndim a)
   \<and> arrays_of (kernel_args_loop args []) = arrays_of args
   \<and> (kernel_dict self (get_args_hash py_hash args) \<noteq> None \<or> jit args = None \<longrightarrow>
        (\<exists>k. launch_log (fst (call_kernel py_hash jit bt args self)) =
               launch_log self @ [(k, fst bt, snd bt, concat (map marshalled args))]))"
  by (auto simp: kernel_args_loop_acc arrays_of_marshalled ndim_def call_kernel_def Let_def)

theorem marshalling_layout_witness:
  "length (strides arr_f64) = length (shape arr_f64)
   \<and> kernel_args_loop [Obj (PyInt 7), Array arr_f64] [] =
       [Obj (PyInt 7), py_int 0, py_int 0, py_int 500, py_int 8, Array arr_f64,
        py_int 10, py_int 50, py_int 400, py_int 8]
   \<and> length (marshalled (Array arr_f64)) = 9
   \<and> launch_log (fst (call_kernel (\<lambda>ts. int (length ts)) (\<lambda>args. None) grid
                        [Obj (PyInt 7), Array arr_f64] compile_cupy_init)) =
       [(0, [4], [256], [Obj (PyInt 7), py_int 0, py_int 0, py_int 500, py_int 8, Array arr_f64,
        py_int 10, py_int 50, py_int 400, py_int 8])]"
  using marshalling_layout [of "[Obj (PyInt 7), Array arr_f64]" "PyInt 7" arr_f64
      compile_cupy_init "\<lambda>ts. int (length ts)" "\<lambda>args. None" grid]
  by (auto simp: arr_f64_def float64_def size_of_def ndim_def compile_cupy_init_def grid_def
      call_kernel_def get_args_hash_def)

section \<open>Properties of the kernel cache\<close>

lemma types_loop_acc: "types_loop args acc = acc @ types_loop args []"
proof (induction args arbitrary: acc)
  case Nil
  then show ?case by simp
next
  case (Cons x args)
  show ?case
  proof (cases x)
    case (Array a)
    have "types_loop (x # args) acc = (acc @ [DType (dtype a), NDim (ndim a)]) @ types_loop args []"
      using Cons [of "acc @ [DType (dtype a), NDim (ndim a)]"] Array by simp
    moreover have "types_loop (x # args) [] = [DType (dtype a), NDim (ndim a)] @ types_loop args []"
      using Cons [of "[DType (dtype a), NDim (ndim a)]"] Array by simp
    ultimately show ?thesis by simp
  next
    case (Obj v)
    have "types_loop (x # args) acc = (acc @ [PyType (type_of v)]) @ types_loop args []"
      using Cons [of "acc @ [PyType (type_of v)]"] Obj by simp
    moreover have "types_loop (x # args) [] = [PyType (type_of v)] @ types_loop args []"
      using Cons [of "[PyType (type_of v)]"] Obj by simp
    ultimately show ?thesis by simp
  qed
qed

lemma types_loop_Array:
  "types_loop (Array a # rest) [] = DType (dtype a) # NDim (ndim a) # types_loop rest []"
  using types_loop_acc [of rest "[DType (dtype a), NDim (ndim a)]"] by simp

lemma types_loop_Obj:
  "types_loop (Obj v # rest) [] = PyType (type_of v) # types_loop rest []"
  using types_loop_acc [of rest "[PyType (type_of v)]"] by simp

lemma types_loop_eq_iff:
  "types_loop a [] = types_loop b [] \<longleftrightarrow> signature a = signature b"
proof (induction a arbitrary: b)
  case Nil
  show ?case
    by (cases b rule: arrays_of.cases)
       (simp_all add: signature_def types_loop_Array types_loop_Obj del: types_loop.simps(2,3))
next
  case (Cons x a)
  show ?case
  proof (cases b)
    case Nil
    then show ?thesis
      by (cases x)
         (simp_all add: signature_def types_loop_Array types_loop_Obj del: types_loop.simps(2,3))
  next
    case (Cons y b')
    with Cons.IH [of b'] show ?thesis
      by (cases x; cases y)
         (auto simp add: signature_def types_loop_Array types_loop_Obj
            simp del: types_loop.simps(2,3))
  qed
qed

lemma call_kernel_hit:
  "kernel_dict self (get_args_hash py_hash args) = Some k \<Longrightarrow>
   call_kernel py_hash jit bt args self =
     (self\<lparr>launch_log := launch_log self @ [(k, fst bt, snd bt, kernel_args_loop args [])]\<rparr>,
      None)"
  by (simp add: call_kernel_def Let_def)

lemma call_kernel_miss:
  "kernel_dict self (get_args_hash py_hash args) = None \<Longrightarrow> jit args = None \<Longrightarrow>
   call_kernel py_hash jit bt args self =
     (self\<lparr>jit_log := jit_log self @ [args],
           kernel_dict := (kernel_dict self)(get_args_hash py_hash args \<mapsto> length (jit_log self)),
           launch_log := launch_log self @
             [(length (jit_log self), fst bt, snd bt, kernel_args_loop args [])]\<rparr>,
      None)"
  by (simp add: call_kernel_def Let_def)

lemma cache_inv_step:
  assumes inv: "cache_inv py_hash done self" and ok: "jit args = None"
  shows "\<exists>self'. call_kernel py_hash jit bt args self = (self', None)
               \<and> cache_inv py_hash (done @ [args]) self'"
proof (cases "kernel_dict self (get_args_hash py_hash args)")
  case (Some k)
  let ?H = "get_args_hash py_hash"
  let ?s = "self\<lparr>launch_log := launch_log self @ [(k, fst bt, snd bt, kernel_args_loop args [])]\<rparr>"
  from Some have "?H args \<in> dom (kernel_dict self)" by auto
  with inv have mem: "?H args \<in> ?H ` set done" by (simp add: cache_inv_def)
  then obtain b where b: "b \<in> set done" "?H b = ?H args" by auto
  have img: "?H ` set (done @ [args]) = ?H ` set done" using mem by auto
  have "cache_inv py_hash (done @ [args]) ?s"
    unfolding cache_inv_def img
    using inv b Some by (auto simp: cache_inv_def)
  with call_kernel_hit [OF Some] show ?thesis by blast
next
  case None
  let ?H = "get_args_hash py_hash"
  let ?n = "length (jit_log self)"
  let ?s = "self\<lparr>jit_log := jit_log self @ [args],
           kernel_dict := (kernel_dict self)(?H args \<mapsto> ?n),
           launch_log := launch_log self @ [(?n, fst bt, snd bt, kernel_args_loop args [])]\<rparr>"
  from None have "?H args \<notin> dom (kernel_dict self)" by auto
  with inv have fresh: "?H args \<notin> ?H ` set done" by (simp add: cache_inv_def)
  then have neq: "\<And>b. b \<in> set done \<Longrightarrow> ?H b \<noteq> ?H args" by (metis imageI)
  have c1: "dom (kernel_dict ?s) = ?H ` set (done @ [args])"
    using inv by (auto simp: cache_inv_def)
  have c2: "\<forall>a \<in> set (done @ [args]). \<exists>k. kernel_dict ?s (?H a) = Some k
          \<and> k < length (jit_log ?s) \<and> ?H (jit_log ?s ! k) = ?H a"
  proof
    fix a assume "a \<in> set (done @ [args])"
    then consider "a \<in> set done" | "a = args" by auto
    then show "\<exists>k. kernel_dict ?s (?H a) = Some k
          \<and> k < length (jit_log ?s) \<and> ?H (jit_log ?s ! k) = ?H a"
    proof cases
      case 1
      with inv obtain k where "kernel_dict self (?H a) = Some k" "k < ?n"
        "?H (jit_log self ! k) = ?H a" by (auto simp: cache_inv_def)
      with neq [OF 1] show ?thesis by (simp add: nth_append)
    next
      case 2
      then show ?thesis by simp
    qed
  qed
  have c3: "length (jit_log ?s) = card (?H ` set (done @ [args]))"
    using inv fresh by (simp add: cache_inv_def)
  have c4: "map fst (launch_log ?s) = map (\<lambda>a. the (kernel_dict ?s (?H a))) (done @ [args])"
    using inv neq by (simp add: cache_inv_def)
  from c1 c2 c3 c4 have "cache_inv py_hash (done @ [args]) ?s"
    unfolding cache_inv_def by blast
  with call_kernel_miss [where jit = jit and bt = bt, OF None ok] show ?thesis by blast
qed

lemma cache_inv_run:
  "cache_inv py_hash done self \<Longrightarrow> \<forall>c \<in> set calls. jit (snd c) = None \<Longrightarrow>
   \<exists>self'. call_all py_hash jit calls self = (self', None)
          \<and> cache_inv py_hash (done @ map snd calls) self'"
proof (induction calls arbitrary: "done" self)
  case Nil
  then show ?case by simp
next
  case (Cons c calls)
  obtain bt args where c: "c = (bt, args)" by (cases c)
  with Cons.prems have "jit args = None" by simp
  from cache_inv_step [where py_hash = py_hash and jit = jit and bt = bt, OF Cons.prems(1) this]
  obtain s where
    s: "call_kernel py_hash jit bt args self = (s, None)"
       "cache_inv py_hash (done @ [args]) s" by blast
  from Cons.IH [OF s(2)] Cons.prems(2) obtain self' where
    "call_all py_hash jit calls s = (self', None)"
    "cache_inv py_hash ((done @ [args]) @ map snd calls) self'" by auto
  with s(1) c show ?case by simp
qed

lemma cache_inv_init: "cache_inv py_hash [] compile_cupy_init"
  by (simp add: cache_inv_def compile_cupy_init_def)

lemma card_image_cong:
  "finite S \<Longrightarrow> (\<And>x y. x \<in> S \<Longrightarrow> y \<in> S \<Longrightarrow> (f x = f y) = (g x = g y)) \<Longrightarrow>
   card (f ` S) = card (g ` S)"
proof (induction S rule: finite_induct)
  case empty
  then show ?case by simp
next
  case (insert x F)
  have IH: "card (f ` F) = card (g ` F)" using insert by simp
  have "(f x \<in> f ` F) = (g x \<in> g ` F)"
  proof
    assume "f x \<in> f ` F"
    then obtain y where "y \<in> F" "f x = f y" by auto
    with insert.prems [of x y] have "g x = g y" by simp
    with \<open>y \<in> F\<close> show "g x \<in> g ` F" by auto
  next
    assume "g x \<in> g ` F"
    then obtain y where "y \<in> F" "g x = g y" by auto
    with insert.prems [of x y] have "f x = f y" by simp
    with \<open>y \<in> F\<close> show "f x \<in> f ` F" by auto
  qed
  with IH insert.hyps show ?case by (simp add: card_insert_if)
qed


lemma types_loop_replicate:
  "types_loop (replicate n (Obj PyNone)) [] = replicate n (PyType TNoneType)"
  by (induction n) (simp_all add: types_loop_Obj del: types_loop.simps(2,3))

text \<open>
  Whatever the hash function, if it takes finitely many values, as a hash of machine
  width does, some two calls with different signatures have the same hash.
\<close>

lemma finite_hash_collides:
  assumes "finite (range py_hash)"
  shows "\<exists>m n. signature (replicate m (Obj PyNone)) \<noteq> signature (replicate n (Obj PyNone))
             \<and> get_args_hash py_hash (replicate m (Obj PyNone)) =
               get_args_hash py_hash (replicate n (Obj PyNone))"
proof -
  let ?g = "\<lambda>n::nat. py_hash (replicate n (PyType TNoneType))"
  have "range ?g \<subseteq> range py_hash" by auto
  with assms have "finite (range ?g)" by (rule finite_subset [rotated])
  then have "\<not> inj ?g" using finite_imageD [of ?g UNIV] by auto
  then obtain m n where "m \<noteq> n" "?g m = ?g n" by (auto simp: inj_on_def)
  moreover from \<open>m \<noteq> n\<close>
  have "signature (replicate m (Obj PyNone)) \<noteq> signature (replicate n (Obj PyNone))"
    by (auto simp: signature_def dest: arg_cong [where f = length])
  ultimately show ?thesis
    by (auto simp: get_args_hash_def types_loop_replicate)
qed

text \<open>
  The cache without collisions. Let one decorator object, starting with an empty
  \<open>kernel_dict\<close>, serve a finite sequence of calls whose compilations all succeed, and
  let no two different signatures among them have the same hash. Then every call is
  launched; two calls are served by the same kernel handle exactly when their
  signatures are equal; and the number of compilations is the number of distinct
  signatures, so it is 2 when exactly two signatures occur, whatever the number and the
  order of the calls.
\<close>

theorem one_kernel_per_signature:
  assumes "\<forall>c \<in> set calls. jit (snd c) = None"
    and "\<forall>c \<in> set calls. \<forall>c' \<in> set calls.
           get_args_hash py_hash (snd c) = get_args_hash py_hash (snd c') \<longrightarrow>
           signature (snd c) = signature (snd c')"
  shows "\<exists>self. call_all py_hash jit calls compile_cupy_init = (self, None)
       \<and> length (launch_log self) = length calls
       \<and> (\<forall>i<length calls. \<forall>j<length calls.
            (fst (launch_log self ! i) = fst (launch_log self ! j)) =
            (signature (snd (calls ! i)) = signature (snd (calls ! j))))
       \<and> length (jit_log self) = card (signature ` snd ` set calls)
       \<and> (card (signature ` snd ` set calls) = 2 \<longrightarrow> length (jit_log self) = 2)"
proof -
  let ?H = "get_args_hash py_hash"
  from cache_inv_run [OF cache_inv_init assms(1)] obtain self where
    run: "call_all py_hash jit calls compile_cupy_init = (self, None)" and
    inv: "cache_inv py_hash (map snd calls) self" by auto
  from inv have
    entries: "\<And>a. a \<in> snd ` set calls \<Longrightarrow>
        \<exists>k. kernel_dict self (?H a) = Some k \<and> ?H (jit_log self ! k) = ?H a" and
    count: "length (jit_log self) = card (?H ` snd ` set calls)" and
    launches: "map fst (launch_log self) = map (\<lambda>a. the (kernel_dict self (?H a))) (map snd calls)"
    by (auto simp: cache_inv_def)
  have same: "(?H a = ?H b) = (signature a = signature b)"
    if "a \<in> snd ` set calls" "b \<in> snd ` set calls" for a b
  proof
    assume "?H a = ?H b"
    with that assms(2) show "signature a = signature b" by auto
  next
    assume "signature a = signature b"
    then show "?H a = ?H b" by (simp add: get_args_hash_def types_loop_eq_iff [symmetric])
  qed
  from launches have len: "length (launch_log self) = length calls"
    by (auto dest: map_eq_imp_length_eq)
  have handle: "fst (launch_log self ! i) = the (kernel_dict self (?H (snd (calls ! i))))"
    if "i < length calls" for i
  proof -
    from that len have "fst (launch_log self ! i) = map fst (launch_log self) ! i" by simp
    also have "\<dots> = the (kernel_dict self (?H (snd (calls ! i))))"
      unfolding launches using that by simp
    finally show ?thesis .
  qed
  have handles: "(fst (launch_log self ! i) = fst (launch_log self ! j)) =
            (signature (snd (calls ! i)) = signature (snd (calls ! j)))"
    if "i < length calls" "j < length calls" for i j
  proof -
    let ?a = "snd (calls ! i)" and ?b = "snd (calls ! j)"
    from that have mem: "?a \<in> snd ` set calls" "?b \<in> snd ` set calls" by auto
    from entries [OF mem(1)] obtain ka where
      ka: "kernel_dict self (?H ?a) = Some ka" "?H (jit_log self ! ka) = ?H ?a" by blast
    from entries [OF mem(2)] obtain kb where
      kb: "kernel_dict self (?H ?b) = Some kb" "?H (jit_log self ! kb) = ?H ?b" by blast
    have "(ka = kb) = (?H ?a = ?H ?b)" using ka kb by auto
    then show ?thesis
      using ka(1) kb(1) same [OF mem] handle [OF that(1)] handle [OF that(2)] by simp
  qed
  have compiled: "length (jit_log self) = card (signature ` snd ` set calls)"
    unfolding count by (rule card_image_cong) (simp_all add: same)
  from run len handles compiled show ?thesis by auto
qed

theorem one_kernel_per_signature_witness:
  "\<exists>self. call_all (\<lambda>ts. if ts = [DType float32, NDim 1] then 1 else 2) (\<lambda>args. None)
            [(grid, [Array arr_f32]), (grid, [Array arr_f64]), (grid, [Array arr_f32])]
            compile_cupy_init = (self, None)
         \<and> length (launch_log self) = 3
         \<and> fst (launch_log self ! 0) = fst (launch_log self ! 2)
         \<and> fst (launch_log self ! 0) \<noteq> fst (launch_log self ! 1)
         \<and> length (jit_log self) = 2"
proof -
  let ?calls = "[(grid, [Array arr_f32]), (grid, [Array arr_f64]), (grid, [Array arr_f32])]"
  let ?h = "\<lambda>ts. if ts = [DType float32, NDim 1] then 1 else (2::int)"
  have ne: "float32 \<noteq> float64" by (simp add: float32_def float64_def)
  have sig: "signature [Array arr_f32] \<noteq> signature [Array arr_f64]"
    using ne by (simp add: signature_def arr_f32_def arr_f64_def)
  have h1: "\<forall>c \<in> set ?calls. (\<lambda>args. None :: error option) (snd c) = None" by simp
  have h2: "\<forall>c \<in> set ?calls. \<forall>c' \<in> set ?calls.
           get_args_hash ?h (snd c) = get_args_hash ?h (snd c') \<longrightarrow>
           signature (snd c) = signature (snd c')"
    using ne by (simp add: get_args_hash_def arr_f32_def arr_f64_def ndim_def)
  have card2: "card (signature ` snd ` set ?calls) = 2"
    using sig by (auto simp: card_insert_if)
  from one_kernel_per_signature [of ?calls "\<lambda>args. None" ?h, OF h1 h2] obtain self where
    r: "call_all ?h (\<lambda>args. None) ?calls compile_cupy_init = (self, None)"
       "length (launch_log self) = length ?calls"
       "\<forall>i<length ?calls. \<forall>j<length ?calls.
            (fst (launch_log self ! i) = fst (launch_log self ! j)) =
            (signature (snd (?calls ! i)) = signature (snd (?calls ! j)))"
       "length (jit_log self) = card (signature ` snd ` set ?calls)"
    by blast
  from r(3) have "(fst (launch_log self ! 0) = fst (launch_log self ! 2)) =
            (signature (snd (?calls ! 0)) = signature (snd (?calls ! 2)))" by simp
  moreover from r(3) have "(fst (launch_log self ! 0) = fst (launch_log self ! 1)) =
            (signature (snd (?calls ! 0)) = signature (snd (?calls ! 1)))" by simp
  ultimately show ?thesis using r(1,2,4) card2 sig by auto
qed

text \<open>
  Claim C1. The claim asks that calls with different signatures never share a kernel,
  and that two distinct signatures cost two compilations. The cache is keyed by the hash
  of the tuple of types, not by the types, and misses this when two classes hash alike:
  a call with the float \<open>F1(1.0)\<close> followed by a call with the integer \<open>I1(1)\<close>, two
  different signatures, is served with one compilation, for the float, and the kernel
  compiled for the float is launched for the integer. This holds whatever the
  interpreter's tuple hash and the hashes of the process are.
\<close>

theorem hash_keyed_cache_shares_kernel:
  "signature [Obj float_F1] \<noteq> signature [Obj int_I1]
   \<and> (case call_all (python_hash tuple_hash env) (\<lambda>args. None)
              [(grid, [Obj float_F1]), (grid, [Obj int_I1])] compile_cupy_init of
        (self, err) \<Rightarrow>
          err = None \<and> jit_log self = [[Obj float_F1]] \<and> map fst (launch_log self) = [0, 0])"
  by (simp add: signature_def float_F1_def int_I1_def call_kernel_def get_args_hash_def
      python_hash_def compile_cupy_init_def Let_def)

text \<open>
  Claim C7, as the code has it. The wrapper checks no argument kind. An argument that
  is not an array enters the signature by its class, whatever the class. On a cache
  miss the compiler is called with the arguments as they are, and the only error of
  the call is the one the compiler raises; on a cache hit there is no error and no
  compilation.
\<close>

theorem call_kernel_no_validation:
  "snd (call_kernel py_hash jit bt args self) =
     (case kernel_dict self (get_args_hash py_hash args) of None \<Rightarrow> jit args | Some k \<Rightarrow> None)
   \<and> jit_log (fst (call_kernel py_hash jit bt args self)) =
     (case kernel_dict self (get_args_hash py_hash args) of
        None \<Rightarrow> jit_log self @ [args] | Some k \<Rightarrow> jit_log self)
   \<and> get_args_hash py_hash (Obj v # rest) =
       py_hash (PyType (type_of v) # types_loop rest [])"
  by (auto simp add: call_kernel_def Let_def get_args_hash_def types_loop_Obj
      simp del: types_loop.simps(2,3) split: option.splits)

text \<open>
  A string argument: the compiler is called first, and the error, or the launch when the
  compiler accepts the argument, comes after.
\<close>

theorem unrecognised_argument_counterexample:
  "call_kernel (\<lambda>ts. int (length ts)) (\<lambda>args. Some (JitError ''cannot type argument'')) grid
     [Obj (PyStr ''abc'')] compile_cupy_init =
     (compile_cupy_init\<lparr>jit_log := [[Obj (PyStr ''abc'')]]\<rparr>,
      Some (JitError ''cannot type argument''))
   \<and> call_kernel (\<lambda>ts. int (length ts)) (\<lambda>args. None) grid
       [Obj (PyStr ''abc'')] compile_cupy_init =
     (\<lparr>kernel_dict = [1 \<mapsto> 0], jit_log = [[Obj (PyStr ''abc'')]],
       launch_log = [(0, [4], [256], [Obj (PyStr ''abc'')])]\<rparr>, None)"
  by (simp add: call_kernel_def get_args_hash_def compile_cupy_init_def Let_def grid_def)

section \<open>Properties of the launch geometry\<close>

lemma bitlen_powi:
  assumes "0 < n"
  shows "(2::rat) powi (bitlen n - 1) \<le> of_int n" and "of_int n < (2::rat) powi (bitlen n)"
proof -
  from bitlen_bounds [OF assms] have lo: "2 ^ nat (bitlen n - 1) \<le> n" and hi: "n < 2 ^ nat (bitlen n)"
    by simp_all
  from assms have b1: "1 \<le> bitlen n" using bitlen_eq_zero_iff [of n] bitlen_nonneg [of n] by linarith
  have "(2::rat) powi (bitlen n - 1) = of_int (2 ^ nat (bitlen n - 1))"
    using b1 by (simp add: power_int_def)
  also have "\<dots> \<le> of_int n" using lo by (simp only: of_int_le_iff)
  finally show "(2::rat) powi (bitlen n - 1) \<le> of_int n" .
  have "(of_int n :: rat) < of_int (2 ^ nat (bitlen n))" using hi by (simp only: of_int_less_iff)
  also have "\<dots> = 2 powi (bitlen n)" using b1 by (simp add: power_int_def)
  finally show "of_int n < (2::rat) powi (bitlen n)" .
qed

lemma binary_exponent_bounds:
  assumes "0 < q"
  shows "2 powi (binary_exponent q) \<le> q \<and> q < 2 powi (binary_exponent q + 1)"
proof -
  obtain n d where nd: "quotient_of q = (n, d)" by (cases "quotient_of q")
  then have d: "0 < d" and q: "q = of_int n / of_int d"
    by (simp_all add: quotient_of_denom_pos quotient_of_div)
  from assms q d have n: "0 < n" by (simp add: zero_less_divide_iff)
  let ?e = "bitlen n - bitlen d"
  note bn = bitlen_powi [OF n] and bd = bitlen_powi [OF d]
  have dpos: "(0::rat) < of_int d" using d by simp
  show ?thesis
  proof (cases "2 powi ?e \<le> q")
    case True
    have "q < 2 powi (bitlen n) / 2 powi (bitlen d - 1)"
      unfolding q using bn(2) bd(1) dpos n
      by (intro frac_less) simp_all
    also have "\<dots> = 2 powi (?e + 1)"
      by (simp add: power_int_diff [symmetric]) (simp add: algebra_simps)
    finally show ?thesis using True nd by (simp add: binary_exponent_def)
  next
    case False
    have "2 powi (?e - 1) = (2::rat) powi (bitlen n - 1) / 2 powi (bitlen d)"
      by (simp add: power_int_diff [symmetric]) (simp add: algebra_simps)
    also have "\<dots> \<le> q"
      unfolding q using bn(1) bd(2) dpos n
      by (intro frac_le) simp_all
    finally show ?thesis using False nd by (simp add: binary_exponent_def)
  qed
qed

lemma powi_less_cancel:
  assumes "(2::rat) powi a < 2 powi b"
  shows "a < b"
proof (rule ccontr)
  assume "\<not> a < b"
  then have "b \<le> a" by simp
  from power_int_increasing [OF this, of "2::rat"] have "(2::rat) powi b \<le> 2 powi a" by simp
  with assms show False by linarith
qed

lemma binary_exponent_unique:
  assumes "2 powi e \<le> q" and "q < 2 powi (e + 1)"
  shows "binary_exponent q = e"
proof -
  have "(0::rat) < 2 powi e" by simp
  with assms(1) have "0 < q" by linarith
  from binary_exponent_bounds [OF this] have
    b: "2 powi (binary_exponent q) \<le> q" "q < 2 powi (binary_exponent q + 1)" by simp_all
  from assms(1) b(2) have "(2::rat) powi e < 2 powi (binary_exponent q + 1)" by linarith
  then have "e < binary_exponent q + 1" by (rule powi_less_cancel)
  moreover from b(1) assms(2) have "(2::rat) powi (binary_exponent q) < 2 powi (e + 1)" by linarith
  then have "binary_exponent q < e + 1" by (rule powi_less_cancel)
  ultimately show ?thesis by linarith
qed


lemma round_half_even_upper: "of_int (round_half_even y) \<le> y + 1 / 2"
  unfolding round_half_even_def Let_def by (auto; linarith)

lemma round_half_even_lower: "y - 1 / 2 \<le> of_int (round_half_even y)"
  unfolding round_half_even_def Let_def by (auto; linarith)

lemma round_half_even_ge_int: "of_int m \<le> y \<Longrightarrow> m \<le> round_half_even y"
proof -
  assume "of_int m \<le> y"
  then have "m \<le> \<lfloor>y\<rfloor>" by (simp add: le_floor_iff)
  moreover have "\<lfloor>y\<rfloor> \<le> round_half_even y"
    unfolding round_half_even_def Let_def by auto
  ultimately show ?thesis by linarith
qed

lemma round_double_pos_eq:
  assumes "2 powi e \<le> q" and "q < 2 powi (e + 1)" and "- 1022 \<le> e"
  shows "round_double_pos q = of_int (round_half_even (q / 2 powi (e - 52))) * 2 powi (e - 52)"
  using binary_exponent_unique [OF assms(1,2)] assms(3)
  by (simp add: round_double_pos_def Let_def max_def)

lemma round_double_pos_upper:
  assumes "2 powi e \<le> q" and "q < 2 powi (e + 1)" and "- 1022 \<le> e"
  shows "round_double_pos q \<le> q + q / 2 ^ 53"
proof -
  let ?u = "(2::rat) powi (e - 52)"
  have u: "0 < ?u" by simp
  have "of_int (round_half_even (q / ?u)) \<le> q / ?u + 1 / 2" by (rule round_half_even_upper)
  then have "of_int (round_half_even (q / ?u)) * ?u \<le> (q / ?u + 1 / 2) * ?u"
    using u by (simp only: mult_le_cancel_right_pos)
  also have "\<dots> = q + ?u / 2" using u by (simp add: field_simps)
  also have "?u / 2 = 2 powi e / 2 ^ 53"
    by (simp add: power_int_diff)
  also have "q + 2 powi e / 2 ^ 53 \<le> q + q / 2 ^ 53"
    using assms(1) by (simp add: divide_right_mono)
  finally show ?thesis by (simp add: round_double_pos_eq [OF assms])
qed

lemma round_double_pos_ge_int:
  assumes "2 powi e \<le> q" and "q < 2 powi (e + 1)" and "- 1022 \<le> e" and "e \<le> 52"
    and "of_int k \<le> q"
  shows "of_int k \<le> round_double_pos q"
proof -
  let ?u = "(2::rat) powi (e - 52)"
  let ?N = "(2::int) ^ nat (52 - e)"
  have u: "0 < ?u" by simp
  have inv: "1 / ?u = of_int ?N"
    using assms(4) by (simp add: power_int_def field_simps)
  have "of_int (k * ?N) \<le> q / ?u"
  proof -
    have "q / ?u = q * of_int ?N" using inv by (simp add: field_simps)
    moreover have "of_int k * of_int ?N \<le> q * (of_int ?N :: rat)"
      using assms(5) by (intro mult_right_mono) simp_all
    ultimately show ?thesis by simp
  qed
  then have "k * ?N \<le> round_half_even (q / ?u)" by (rule round_half_even_ge_int)
  then have "(of_int (k * ?N) :: rat) \<le> of_int (round_half_even (q / ?u))"
    by (simp only: of_int_le_iff)
  then have A: "of_int (k * ?N) * ?u \<le> of_int (round_half_even (q / ?u)) * ?u"
    using u by (simp only: mult_le_cancel_right_pos)
  have B: "of_int (k * ?N) * ?u = (of_int k :: rat)"
  proof -
    have "(of_int ?N :: rat) * ?u = 1" using inv u by (simp add: field_simps)
    then have "of_int k * ((of_int ?N :: rat) * ?u) = of_int k" by (simp only: mult_1_right)
    then show ?thesis by (simp only: of_int_mult mult.assoc)
  qed
  from A have "of_int k \<le> of_int (round_half_even (q / ?u)) * ?u" unfolding B .
  then show ?thesis unfolding round_double_pos_eq [OF assms(1,2,3)] .
qed


lemma exponent_in_range:
  fixes q :: rat
  assumes "2 powi (- 52) \<le> q" and "q < 2 ^ 53"
  obtains e where "2 powi e \<le> q" and "q < 2 powi (e + 1)" and "- 1022 \<le> e" and "e \<le> 52"
proof -
  have "(0::rat) < 2 powi (- 52)" by simp
  with assms(1) have "0 < q" by linarith
  from binary_exponent_bounds [OF this] have
    b: "2 powi (binary_exponent q) \<le> q" "q < 2 powi (binary_exponent q + 1)" by simp_all
  have "(2::rat) ^ 53 = 2 powi 53" by simp
  with b(1) assms(2) have "(2::rat) powi (binary_exponent q) < 2 powi 53" by linarith
  then have hi: "binary_exponent q < 53" by (rule powi_less_cancel)
  from assms(1) b(2) have "(2::rat) powi (- 52) < 2 powi (binary_exponent q + 1)" by linarith
  then have lo: "- 52 < binary_exponent q + 1" by (rule powi_less_cancel)
  from that [OF b] hi lo show ?thesis by simp
qed

lemma round_double_in_range:
  fixes q :: rat
  assumes "2 powi (- 52) \<le> q" and "q < 2 ^ 53"
  shows "round_double q = Finite (round_double_pos q)"
proof -
  have "(0::rat) < 2 powi (- 52)" by simp
  with assms(1) have pos: "0 < q" by linarith
  from assms obtain e where e: "2 powi e \<le> q" "q < 2 powi (e + 1)" "- 1022 \<le> e"
    by (rule exponent_in_range)
  from round_double_pos_upper [OF e] have "round_double_pos q \<le> q + q / 2 ^ 53" .
  also have "\<dots> < 2 ^ 53 + 2 ^ 53 / 2 ^ 53" using assms(2) pos
    by (intro add_strict_mono divide_strict_right_mono) simp_all
  also have "\<dots> \<le> 2 powi 1024" by simp
  finally have "\<not> 2 powi 1024 \<le> round_double_pos q" by simp
  with pos show ?thesis by (simp add: round_double_def Let_def)
qed

lemma geometry_arith:
  fixes X T K :: rat
  assumes "1 \<le> X" and "1 \<le> T" and "X + T \<le> 2 ^ 52" and "X + 1 \<le> (K + 1) * T"
    and "r \<le> X / T + X / T / 2 ^ 53"
  shows "(r + 1) + (r + 1) / 2 ^ 53 < K + 2"
proof -
  let ?M = "(2::rat) ^ 53"
  from assms(2) have T: "0 < T" by linarith
  have lin: "(X * ?M + X + ?M * T) * (?M + 1) < (X + 1 + T) * ?M * ?M"
    using assms(1,2,3) by (simp add: algebra_simps)
  have "(r + 1) + (r + 1) / ?M = (r + 1) * ((?M + 1) / ?M)" by (simp add: field_simps)
  also have "\<dots> \<le> (X / T + X / T / ?M + 1) * ((?M + 1) / ?M)"
    using assms(5) by (intro mult_right_mono) simp_all
  also have "\<dots> = ((X * ?M + X + ?M * T) * (?M + 1)) / (T * ?M * ?M)"
    using T by (simp add: field_simps)
  also have "\<dots> < ((X + 1 + T) * ?M * ?M) / (T * ?M * ?M)"
    using lin T by (intro divide_strict_right_mono) simp_all
  also have "\<dots> = (X + 1) / T + 1" using T by (simp add: field_simps)
  also have "\<dots> \<le> (K + 1) + 1"
    using assms(4) T by (simp add: pos_divide_le_eq algebra_simps)
  finally show ?thesis by simp
qed

text \<open>
  Where the code computes the needed blocks. For positive integers \<open>x\<close> and \<open>TPB\<close>
  with \<open>x + TPB \<le> 2 ^ 52\<close>, \<open>cuda_tpb_bpg_1d\<close> returns \<open>(BPG, TPB)\<close> with
  \<open>BPG = x div TPB + 1\<close> exactly, so that \<open>BPG * TPB \<ge> x\<close>; in that range neither
  the rounding of the quotient nor the rounding of the sum reaches the next integer.
  An exact multiple gets one block more than it needs: 256 threads in blocks of 256
  get 2 blocks.
\<close>

theorem launch_geometry_1d:
  assumes "0 < x" and "0 < TPB" and "x + TPB \<le> 2 ^ 52"
  shows "cuda_tpb_bpg_1d x TPB = Inr (x div TPB + 1, TPB) \<and> x \<le> (x div TPB + 1) * TPB"
proof -
  let ?k = "x div TPB"
  let ?X = "of_int x :: rat" and ?T = "of_int TPB :: rat" and ?K = "of_int (x div TPB) :: rat"
  let ?q = "?X / ?T"
  from assms have X1: "1 \<le> ?X" and T1: "1 \<le> ?T" by simp_all
  from T1 have T0: "0 < ?T" by linarith
  have "(of_int (x + TPB) :: rat) \<le> of_int (2 ^ 52)" using assms(3) by (simp only: of_int_le_iff)
  then have XT: "?X + ?T \<le> 2 ^ 52" by simp
  have ipos: "0 \<le> ?k" using assms by (simp add: pos_imp_zdiv_nonneg_iff)
  have "?k * TPB \<le> x"
  proof -
    have "x = ?k * TPB + x mod TPB" by simp
    moreover have "0 \<le> x mod TPB" using assms(2) by simp
    ultimately show ?thesis by linarith
  qed
  then have "(of_int (?k * TPB) :: rat) \<le> of_int x" by (simp only: of_int_le_iff)
  then have kq: "?K \<le> ?q" using T0 by (simp add: pos_le_divide_eq)
  have ilt: "x + 1 \<le> (?k + 1) * TPB"
  proof -
    have "x = ?k * TPB + x mod TPB" by simp
    moreover have "x mod TPB < TPB" using assms(2) by simp
    moreover have "(?k + 1) * TPB = ?k * TPB + TPB" by (simp add: algebra_simps)
    ultimately show ?thesis by linarith
  qed
  then have "(of_int (x + 1) :: rat) \<le> of_int ((?k + 1) * TPB)" by (simp only: of_int_le_iff)
  then have kq2: "?X + 1 \<le> (?K + 1) * ?T" by simp
  have K0: "0 \<le> ?K" using ipos by simp
  have q_lo: "2 powi (- 52) \<le> ?q"
  proof -
    have "(2::rat) powi (- 52) = 1 / 2 ^ 52" by (simp add: power_int_minus_divide)
    also have "\<dots> \<le> 1 / ?T" using XT X1 T0 by (intro divide_left_mono) simp_all
    also have "\<dots> \<le> ?q" using X1 T0 by (simp add: divide_right_mono)
    finally show ?thesis .
  qed
  have q_hi: "?q < 2 ^ 53"
  proof -
    have "?q \<le> ?X / 1" using T1 X1 by (intro divide_left_mono) simp_all
    also have "\<dots> < 2 ^ 53" using XT T1 by simp
    finally show ?thesis .
  qed
  from q_lo q_hi obtain e1 where e1: "2 powi e1 \<le> ?q" "?q < 2 powi (e1 + 1)" "- 1022 \<le> e1"
    "e1 \<le> 52" by (rule exponent_in_range)
  let ?r1 = "round_double_pos ?q"
  have r1_lo: "?K \<le> ?r1" using round_double_pos_ge_int [OF e1 kq] .
  have r1_hi: "?r1 \<le> ?q + ?q / 2 ^ 53" using round_double_pos_upper [OF e1(1,2,3)] .
  have rd1: "round_double ?q = Finite ?r1" using round_double_in_range [OF q_lo q_hi] .
  let ?q2 = "?r1 + 1"
  have up: "?q2 + ?q2 / 2 ^ 53 < ?K + 2"
    using geometry_arith [OF X1 T1 XT kq2 r1_hi] .
  have q2_lo: "2 powi (- 52) \<le> ?q2"
  proof -
    have "(2::rat) powi (- 52) \<le> 1" by (simp add: power_int_minus_divide)
    also have "\<dots> \<le> ?q2" using r1_lo K0 by linarith
    finally show ?thesis .
  qed
  have q2_pos: "0 < ?q2" using r1_lo K0 by linarith
  have KX: "?K \<le> ?X"
  proof -
    have "?q \<le> ?X / 1" using T1 X1 by (intro divide_left_mono) simp_all
    with kq show ?thesis by simp
  qed
  have q2_hi: "?q2 < 2 ^ 53"
  proof -
    have "?q2 \<le> ?q2 + ?q2 / 2 ^ 53" using q2_pos by simp
    also note up
    also have "?K + 2 \<le> 2 ^ 53" using KX XT T1 by simp
    finally show ?thesis .
  qed
  from q2_lo q2_hi obtain e2 where e2: "2 powi e2 \<le> ?q2" "?q2 < 2 powi (e2 + 1)" "- 1022 \<le> e2"
    "e2 \<le> 52" by (rule exponent_in_range)
  let ?r2 = "round_double_pos ?q2"
  have "of_int (?k + 1) \<le> ?q2" using r1_lo by simp
  from round_double_pos_ge_int [OF e2 this] have r2_lo: "of_int (?k + 1) \<le> ?r2" .
  have "?r2 \<le> ?q2 + ?q2 / 2 ^ 53" using round_double_pos_upper [OF e2(1,2,3)] .
  with up have r2_hi: "?r2 < of_int (?k + 1) + 1" by simp
  have rd2: "round_double ?q2 = Finite ?r2" using round_double_in_range [OF q2_lo q2_hi] .
  have fl: "\<lfloor>?r2\<rfloor> = ?k + 1" using r2_lo r2_hi by (rule floor_unique)
  have r2_pos: "0 \<le> ?r2" using r2_lo K0 by simp
  have "cuda_tpb_bpg_1d x TPB = Inr (?k + 1, TPB)"
    using assms(2) rd1 rd2 fl r2_pos
    by (simp add: cuda_tpb_bpg_1d_def int_truediv_def)
  moreover have "x \<le> (?k + 1) * TPB" using ilt by simp
  ultimately show ?thesis by simp
qed

theorem launch_geometry_1d_witness:
  "cuda_tpb_bpg_1d 256 256 = Inr (2, 256) \<and> cuda_tpb_bpg_1d 1000 256 = Inr (4, 256)
   \<and> (256::int) \<le> 2 * 256"
  using launch_geometry_1d [of 256 256] launch_geometry_1d [of 1000 256] by simp

lemma round_double_pos_tie: "round_double_pos 9007199254740993 = 9007199254740992"
proof -
  have "round_double_pos 9007199254740993 =
          of_int (round_half_even (9007199254740993 / 2 powi (53 - 52))) * 2 powi (53 - 52)"
    by (rule round_double_pos_eq) simp_all
  also have "\<dots> = 9007199254740992"
  proof -
    have "\<lfloor>9007199254740993 / 2 :: rat\<rfloor> = 4503599627370496"
      by (rule floor_unique) simp_all
    then show ?thesis by (simp add: round_half_even_def Let_def)
  qed
  finally show ?thesis .
qed

text \<open>
  Claim C2. The claim asks, for all positive integers, for \<open>x div TPB + 1\<close> blocks,
  which cover \<open>x\<close> threads. The code computes the quotient and the sum in double
  precision and misses this for large arguments: for \<open>x = 2 ^ 53 + 1\<close> and \<open>TPB = 1\<close>
  the quotient rounds to \<open>2 ^ 53\<close>, and so does its sum with 1, so that the result is
  \<open>2 ^ 53\<close> blocks: two fewer than \<open>x div TPB + 1\<close>, and too few for \<open>x\<close> threads.
\<close>

theorem launch_geometry_1d_double_rounding:
  "cuda_tpb_bpg_1d (2 ^ 53 + 1) 1 = Inr (2 ^ 53, 1)
   \<and> (2 ^ 53 + 1) div 1 + 1 = (2 ^ 53 + 2 :: int)
   \<and> \<not> (2 ^ 53 + 1 :: int) \<le> 2 ^ 53 * 1"
  using round_double_pos_tie
  by (simp add: cuda_tpb_bpg_1d_def int_truediv_def round_double_def Let_def)

end
